theory Spec2Isabelle
  imports Complex_Main "HOL-Library.Sublist"
begin

section \<open>Python values used by the scraper\<close>

text \<open>
  The exceptions the modelled code can meet. Every \<open>try/except Exception\<close> of the source
  is a case distinction on a result of type \<open>py_error + 'a\<close>.
\<close>

datatype py_error = IndexError | TypeError | ValueError | AttributeError
  | OverflowError | OSError string

subsection \<open>String methods\<close>

text \<open>\<open>s.rstrip(chars)\<close>: drop every trailing character that occurs in \<open>chars\<close>.\<close>

definition rstrip_chars :: "string \<Rightarrow> string \<Rightarrow> string" where
  "rstrip_chars chars s = rev (dropWhile (\<lambda>c. c \<in> set chars) (rev s))"

text \<open>\<open>s.split(sep)\<close> for a one-character separator: never the empty list.\<close>

fun split_on :: "char \<Rightarrow> string \<Rightarrow> string list" where
  "split_on sep [] = [[]]"
| "split_on sep (c # cs) =
     (if c = sep then [] # split_on sep cs
      else (case split_on sep cs of
              [] \<Rightarrow> [[c]]
            | w # ws \<Rightarrow> (c # w) # ws))"

text \<open>
  \<open>s.replace(old, new)\<close>: every non-overlapping occurrence of \<open>old\<close>, scanning from the
  left, is replaced. With an empty \<open>old\<close> Python puts \<open>new\<close> around every character.
\<close>

function replace_all :: "string \<Rightarrow> string \<Rightarrow> string \<Rightarrow> string" where
  "replace_all old new [] = (if old = [] then new else [])"
| "replace_all old new (c # cs) =
     (if old = [] then new @ c # replace_all old new cs
      else if prefix old (c # cs) then new @ replace_all old new (drop (length old) (c # cs))
      else c # replace_all old new cs)"
  by pat_completeness auto
termination
  by (relation "measure (\<lambda>(old, new, s). length s)") auto

text \<open>\<open>parts[-1]\<close>: the last element, IndexError on the empty list.\<close>

definition last_item :: "'a list \<Rightarrow> py_error + 'a" where
  "last_item xs = (if xs = [] then Inl IndexError else Inr (last xs))"

subsection \<open>Decoded JSON\<close>

text \<open>
  What \<open>json.loads\<close> and \<open>r.json()\<close> return: \<open>None\<close>, booleans, unbounded integers,
  floats, strings, lists and dictionaries. A float is a rational or one of the special
  values Python's decoder accepts. A dictionary is an association list in which the first
  binding of a key is the one looked up.
\<close>

datatype pyfloat = Finite rat | Infinite | NaN

datatype json = JNull | JBool bool | JInt int | JFloat pyfloat | JStr string
  | JList "json list" | JDict "(string \<times> json) list"

text \<open>Truth value testing, as \<open>if x\<close>, \<open>not x\<close> and \<open>x or y\<close> apply it.\<close>

fun truthy :: "json \<Rightarrow> bool" where
  "truthy JNull = False"
| "truthy (JBool b) = b"
| "truthy (JInt n) = (n \<noteq> 0)"
| "truthy (JFloat f) = (f \<noteq> Finite 0)"
| "truthy (JStr s) = (s \<noteq> [])"
| "truthy (JList xs) = (xs \<noteq> [])"
| "truthy (JDict kvs) = (kvs \<noteq> [])"

definition py_or :: "json \<Rightarrow> json \<Rightarrow> json" where
  "py_or a b = (if truthy a then a else b)"

text \<open>\<open>x.get(key, default)\<close>: only a dictionary has the method.\<close>

fun py_get :: "json \<Rightarrow> string \<Rightarrow> json \<Rightarrow> py_error + json" where
  "py_get (JDict kvs) key dflt = Inr (case map_of kvs key of None \<Rightarrow> dflt | Some v \<Rightarrow> v)"
| "py_get other key dflt = Inl AttributeError"

text \<open>Sequencing of steps that may raise.\<close>

definition and_then :: "py_error + 'a \<Rightarrow> ('a \<Rightarrow> py_error + 'b) \<Rightarrow> py_error + 'b" where
  "and_then r f = (case r of Inl e \<Rightarrow> Inl e | Inr x \<Rightarrow> f x)"

text \<open>
  \<open>int(s)\<close> for a string: surrounding whitespace is ignored, then an optional sign and
  decimal digits, where single underscores may separate digits. (The cap that recent
  Python versions put on the number of digits is not modelled.)
\<close>

definition is_space :: "char \<Rightarrow> bool" where
  "is_space c = (c \<in> set [CHR '' '', CHR 0x09, CHR 0x0A, CHR 0x0B, CHR 0x0C, CHR 0x0D,
                            CHR 0x1C, CHR 0x1D, CHR 0x1E, CHR 0x1F])"

definition strip :: "string \<Rightarrow> string" where
  "strip s = rev (dropWhile is_space (rev (dropWhile is_space s)))"

definition is_digit :: "char \<Rightarrow> bool" where
  "is_digit c = (48 \<le> (of_char c :: nat) \<and> (of_char c :: nat) \<le> 57)"

definition digit_val :: "char \<Rightarrow> nat" where
  "digit_val c = of_char c - 48"

fun digits_value :: "nat \<Rightarrow> string \<Rightarrow> nat option" where
  "digits_value acc [] = Some acc"
| "digits_value acc [c] = (if is_digit c then Some (10 * acc + digit_val c) else None)"
| "digits_value acc (c # d # ds) =
     (if is_digit c then digits_value (10 * acc + digit_val c) (d # ds)
      else if c = CHR ''_'' \<and> is_digit d then digits_value (10 * acc + digit_val d) ds
      else None)"

definition unsigned_value :: "string \<Rightarrow> nat option" where
  "unsigned_value s =
     (case s of [] \<Rightarrow> None
      | c # cs \<Rightarrow> if is_digit c then digits_value (digit_val c) cs else None)"

definition int_of_str :: "string \<Rightarrow> py_error + int" where
  "int_of_str s0 =
     (let s = strip s0;
          (neg, body) = (case s of
                           [] \<Rightarrow> (False, [])
                         | c # cs \<Rightarrow> if c = CHR ''-'' then (True, cs)
                                    else if c = CHR ''+'' then (False, cs)
                                    else (False, s))
      in case unsigned_value body of
           None \<Rightarrow> Inl ValueError
         | Some n \<Rightarrow> Inr (if neg then - int n else int n))"

text \<open>\<open>int(x)\<close>: a float is truncated towards zero.\<close>

fun py_int :: "json \<Rightarrow> py_error + int" where
  "py_int (JInt n) = Inr n"
| "py_int (JBool b) = Inr (if b then 1 else 0)"
| "py_int (JFloat (Finite r)) = Inr (if 0 \<le> r then \<lfloor>r\<rfloor> else \<lceil>r\<rceil>)"
| "py_int (JFloat Infinite) = Inl OverflowError"
| "py_int (JFloat NaN) = Inl ValueError"
| "py_int (JStr s) = int_of_str s"
| "py_int JNull = Inl TypeError"
| "py_int (JList xs) = Inl TypeError"
| "py_int (JDict kvs) = Inl TypeError"

text \<open>Decimal text of a number, as an f-string prints it.\<close>

fun show_nat :: "nat \<Rightarrow> string" where
  "show_nat n =
     (if n < 10 then [char_of (48 + n)]
      else show_nat (n div 10) @ [char_of (48 + n mod 10)])"

declare show_nat.simps [simp del]

section \<open>Utilities\<close>

text \<open>The body of \<open>extract_urlname_from_url\<close> inside its \<open>try\<close>.\<close>

definition extract_urlname_body :: "string \<Rightarrow> py_error + string" where
  "extract_urlname_body url0 =
     (let url = rstrip_chars ''/'' url0;
          parts = split_on (CHR ''/'') url
      in case last_item parts of
           Inl e \<Rightarrow> Inl e
         | Inr lst \<Rightarrow>
             if suffix ''-reviews'' lst then Inr (replace_all ''-reviews'' '''' lst)
             else Inr lst)"

definition extract_urlname_from_url :: "string \<Rightarrow> string option" where
  "extract_urlname_from_url url =
     (case extract_urlname_body url of Inl e \<Rightarrow> None | Inr s \<Rightarrow> Some s)"

text \<open>
  What the specification asks for: the final path segment, with one trailing
  \<open>-reviews\<close> removed when the segment ends in it.
\<close>

definition strip_reviews_suffix :: "string \<Rightarrow> string" where
  "strip_reviews_suffix seg =
     (if suffix ''-reviews'' seg then take (length seg - length ''-reviews'') seg else seg)"

definition final_segment :: "string \<Rightarrow> string" where
  "final_segment url = last (split_on (CHR ''/'') (rstrip_chars ''/'' url))"

definition ensure_scheme :: "string \<Rightarrow> string" where
  "ensure_scheme s =
     (if \<not> prefix ''http://'' s \<and> \<not> prefix ''https://'' s then ''https://'' @ s else s)"

section \<open>Metadata probe and page discovery\<close>

text \<open>
  What one HTTP GET gives back: the call raises (with the text of the exception), or a
  response arrives with a status code and a body that decodes to JSON or fails to (with
  the text of that exception).
\<close>

datatype http_reply = ConnError string | Reply nat "string + json"

text \<open>
  \<open>probe_seo_meta\<close>: \<open>raise_for_status\<close> raises on a 4xx or 5xx status, and every
  exception is turned into \<open>None\<close>.
\<close>

definition probe_seo_meta :: "http_reply \<Rightarrow> json option" where
  "probe_seo_meta reply =
     (case reply of
        ConnError msg \<Rightarrow> None
      | Reply status body \<Rightarrow>
          if 400 \<le> status \<and> status < 600 then None
          else (case body of Inl msg \<Rightarrow> None | Inr j \<Rightarrow> Some j))"

text \<open>The first three lines of \<open>extract_company_id\<close>: the value bound to \<open>cid\<close>.\<close>

definition company_id_field :: "json \<Rightarrow> py_error + json" where
  "company_id_field seo_json =
     and_then (py_get seo_json ''data'' JNull) (\<lambda>d.
     let data = py_or d seo_json in
     and_then (py_get data ''company'' JNull) (\<lambda>c.
     let company = py_or c (JDict []) in
     py_get company ''id'' JNull))"

definition extract_company_id_body :: "json \<Rightarrow> py_error + int option" where
  "extract_company_id_body seo_json =
     and_then (company_id_field seo_json) (\<lambda>cid.
     if truthy cid then and_then (py_int cid) (\<lambda>n. Inr (Some n)) else Inr None)"

definition extract_company_id :: "json \<Rightarrow> int option" where
  "extract_company_id seo_json =
     (case extract_company_id_body seo_json of Inl e \<Rightarrow> None | Inr r \<Rightarrow> r)"

text \<open>
  The expression both phases of \<open>discover_total_pages\<close> evaluate on a decoded body:
  \<open>int(((j.get("data") or {}).get("pagination") or {}).get("totalPages", 0))\<close>.
\<close>

definition pagination_total :: "json \<Rightarrow> py_error + int" where
  "pagination_total j =
     and_then (py_get j ''data'' JNull) (\<lambda>d.
     and_then (py_get (py_or d (JDict [])) ''pagination'' JNull) (\<lambda>p.
     and_then (py_get (py_or p (JDict [])) ''totalPages'' (JInt 0)) py_int))"

text \<open>
  The two phases. Each returns the page count it found when that is greater than one;
  \<open>None\<close> stands for falling through, also when the phase raised.
\<close>

definition seo_phase :: "http_reply \<Rightarrow> int option" where
  "seo_phase meta_reply =
     (case probe_seo_meta meta_reply of
        None \<Rightarrow> None
      | Some seo \<Rightarrow>
          if truthy seo then
            (case pagination_total seo of
               Inl e \<Rightarrow> None
             | Inr n \<Rightarrow> if n > 1 then Some n else None)
          else None)"

definition data_phase :: "http_reply \<Rightarrow> int option" where
  "data_phase data_reply =
     (case data_reply of
        ConnError msg \<Rightarrow> None
      | Reply status body \<Rightarrow>
          if status = 200 then
            (case body of
               Inl msg \<Rightarrow> None
             | Inr j \<Rightarrow>
                 (case pagination_total j of
                    Inl e \<Rightarrow> None
                  | Inr n \<Rightarrow> if n > 1 then Some n else None))
          else None)"

definition discover_total_pages :: "http_reply \<Rightarrow> http_reply \<Rightarrow> int" where
  "discover_total_pages meta_reply data_reply =
     (case seo_phase meta_reply of
        Some n \<Rightarrow> n
      | None \<Rightarrow>
          (case data_phase data_reply of
             Some n \<Rightarrow> n
           | None \<Rightarrow> 1))"

section \<open>The paginated fetcher\<close>

definition RETRIES :: nat where
  "RETRIES = 5"

definition BACKOFF_BASE :: real where
  "BACKOFF_BASE = 2"

text \<open>
  What \<open>fetch_page_json\<close> returns (the decoded body, \<open>JNull\<close> being Python's \<open>None\<close>, and
  the error text), with what it did on the way: the sleeps in order and the number of
  requests made.
\<close>

record fetch_result =
  fr_data :: json
  fr_err :: "string option"
  fr_slept :: "real list"
  fr_attempts :: nat

text \<open>
  The retry loop of \<open>fetch_page_json\<close> from attempt number \<open>attempt\<close> on. \<open>net a\<close> is what
  the request of attempt \<open>a\<close> meets, \<open>jit a\<close> the value \<open>random.random()\<close> gives there.
  An exception (a failed connection, or a body of a 200 response that does not decode)
  is retried after a sleep, except on the last attempt.
\<close>

function fetch_attempts ::
  "(nat \<Rightarrow> http_reply) \<Rightarrow> (nat \<Rightarrow> real) \<Rightarrow> nat \<Rightarrow> real list \<Rightarrow> fetch_result" where
  "fetch_attempts net jit attempt slept =
     (if attempt < RETRIES then
        (case net attempt of
           Reply status body \<Rightarrow>
             if status = 200 then
               (case body of
                  Inr j \<Rightarrow>
                    \<lparr>fr_data = j, fr_err = None, fr_slept = slept, fr_attempts = attempt + 1\<rparr>
                | Inl msg \<Rightarrow>
                    if attempt < RETRIES - 1 then
                      fetch_attempts net jit (attempt + 1)
                        (slept @ [BACKOFF_BASE ^ attempt + jit attempt])
                    else
                      \<lparr>fr_data = JNull, fr_err = Some msg, fr_slept = slept,
                       fr_attempts = attempt + 1\<rparr>)
             else if status = 429 \<or> status = 503 then
               fetch_attempts net jit (attempt + 1)
                 (slept @ [BACKOFF_BASE ^ attempt + jit attempt])
             else
               \<lparr>fr_data = JNull, fr_err = Some (''status_'' @ show_nat status),
                fr_slept = slept, fr_attempts = attempt + 1\<rparr>
         | ConnError msg \<Rightarrow>
             if attempt < RETRIES - 1 then
               fetch_attempts net jit (attempt + 1)
                 (slept @ [BACKOFF_BASE ^ attempt + jit attempt])
             else
               \<lparr>fr_data = JNull, fr_err = Some msg, fr_slept = slept,
                fr_attempts = attempt + 1\<rparr>)
      else
        \<lparr>fr_data = JNull, fr_err = Some ''max_retries_exceeded'', fr_slept = slept,
         fr_attempts = attempt\<rparr>)"
  by pat_completeness auto
termination
  by (relation "measure (\<lambda>(net, jit, attempt, slept). RETRIES - attempt)") auto

declare fetch_attempts.simps [simp del]

definition fetch_page_json :: "(nat \<Rightarrow> http_reply) \<Rightarrow> (nat \<Rightarrow> real) \<Rightarrow> fetch_result" where
  "fetch_page_json net jit = fetch_attempts net jit 0 []"

definition rate_limited :: "http_reply \<Rightarrow> bool" where
  "rate_limited reply =
     (case reply of ConnError msg \<Rightarrow> False | Reply status body \<Rightarrow> status = 429 \<or> status = 503)"

text \<open>
  What one target's fetch meets: the replies and jitter per page and attempt, whether
  writing a page's records to the output file raises, and whether creating the output
  directory raises (with the text of the exception).
\<close>

record fetch_env =
  replies :: "int \<Rightarrow> nat \<Rightarrow> http_reply"
  jitter :: "int \<Rightarrow> nat \<Rightarrow> real"
  write_raises :: "int \<Rightarrow> bool"
  mkdir_raises :: "string option"

text \<open>\<open>(data.get("data", {}) or {}).get("reviews", []) or []\<close>\<close>

definition page_reviews :: "json \<Rightarrow> py_error + json" where
  "page_reviews body =
     and_then (py_get body ''data'' (JDict [])) (\<lambda>d.
     and_then (py_get (py_or d (JDict [])) ''reviews'' (JList [])) (\<lambda>r.
     Inr (py_or r (JList []))))"

text \<open>
  \<open>process_page\<close>: the success flag and the record count. A record that cannot be
  serialised is skipped without changing the count; any other exception while the
  page is written gives \<open>(False, 0)\<close>.
\<close>

definition process_page :: "fetch_env \<Rightarrow> int \<Rightarrow> bool \<times> nat" where
  "process_page env page_num =
     (let r = fetch_page_json (replies env page_num) (jitter env page_num) in
      if fr_data r = JNull then (False, 0)
      else
        (case page_reviews (fr_data r) of
           Inl e \<Rightarrow> (False, 0)
         | Inr reviews \<Rightarrow>
             (case reviews of
                JList rs \<Rightarrow> if write_raises env page_num then (False, 0) else (True, length rs)
              | other \<Rightarrow> (False, 0))))"

definition batch_size :: int where
  "batch_size = 50"

text \<open>Adding up the results of one window, as the inner loop of \<open>run\<close> does.\<close>

definition tally :: "(bool \<times> nat) list \<Rightarrow> nat \<times> nat \<Rightarrow> nat \<times> nat" where
  "tally results counts =
     fold (\<lambda>(ok, cnt) (pages_fetched, reviews_written).
             if ok then (pages_fetched + 1, reviews_written + cnt)
             else (pages_fetched, reviews_written))
          results counts"

text \<open>
  The window loop of \<open>run\<close> from page \<open>start\<close> on. Besides the two counters it keeps the
  list of windows dispatched so far, each the list of its page numbers in task order.
\<close>

function run_windows ::
  "fetch_env \<Rightarrow> int \<Rightarrow> int \<Rightarrow> int list list \<times> nat \<times> nat \<Rightarrow> int list list \<times> nat \<times> nat" where
  "run_windows env start total_pages (windows, counts) =
     (if start < total_pages + 1 then
        (let stop = min (start + batch_size) (total_pages + 1);
             pages = [start..stop - 1];
             results = map (process_page env) pages
         in run_windows env (start + batch_size) total_pages
              (windows @ [pages], tally results counts))
      else (windows, counts))"
  by pat_completeness auto
termination
  by (relation "measure (\<lambda>(env, start, total_pages, acc). nat (total_pages + 1 - start))")
    (auto simp: batch_size_def)

declare run_windows.simps [simp del]

definition run :: "fetch_env \<Rightarrow> int \<Rightarrow> py_error + (int list list \<times> nat \<times> nat)" where
  "run env total_pages =
     (case mkdir_raises env of
        Some msg \<Rightarrow> Inl (OSError msg)
      | None \<Rightarrow> Inr (run_windows env 1 total_pages ([], 0, 0)))"

text \<open>
  An example: every page is answered with two records, except page 2, which is
  answered 404.
\<close>

definition example_fetch_env :: fetch_env where
  "example_fetch_env =
     \<lparr>replies = (\<lambda>p a. if p = 2 then Reply 404 (Inl ''not json'')
                       else Reply 200 (Inr (JDict [(''data'',
                              JDict [(''reviews'', JList [JDict [], JDict []])])]))),
      jitter = (\<lambda>p a. 1 / 2),
      write_raises = (\<lambda>p. False),
      mkdir_raises = None\<rparr>"

section \<open>Cookie capture\<close>

text \<open>
  What one browser attempt gives: the cookies read back after the page has loaded (name
  and value of each), or an exception raised anywhere in the attempt, with its text.
\<close>

datatype browser_outcome = Cookies "(string \<times> string) list" | BrowserError string

fun join :: "string \<Rightarrow> string list \<Rightarrow> string" where
  "join sep [] = []"
| "join sep [x] = x"
| "join sep (x # y # ys) = x @ sep @ join sep (y # ys)"

definition cookie_header :: "(string \<times> string) list \<Rightarrow> string" where
  "cookie_header cookies = join ''; '' (map (\<lambda>(name, val). name @ ''='' @ val) cookies)"

text \<open>
  The result pair of \<open>capture_cookies_visible_browser\<close>, with the number of browser
  attempts made and the sleeps (in seconds) in order.
\<close>

record capture_result =
  cr_cookie :: "string option"
  cr_error :: string
  cr_attempts :: nat
  cr_slept :: "nat list"

text \<open>
  The attempt loop from attempt number \<open>attempt\<close> on. The sleep is in the \<open>except\<close>
  branch only: an attempt that loads the page and finds no cookie goes on to the next
  attempt at once.
\<close>

function capture_attempts ::
  "(nat \<Rightarrow> browser_outcome) \<Rightarrow> nat \<Rightarrow> nat \<Rightarrow> nat list \<Rightarrow> capture_result" where
  "capture_attempts browser max_attempts attempt slept =
     (if attempt < max_attempts then
        (case browser attempt of
           Cookies cookies \<Rightarrow>
             if cookies \<noteq> [] then
               \<lparr>cr_cookie = Some (cookie_header cookies), cr_error = [],
                cr_attempts = attempt + 1, cr_slept = slept\<rparr>
             else capture_attempts browser max_attempts (attempt + 1) slept
         | BrowserError e \<Rightarrow>
             (let error_msg = ''Attempt '' @ show_nat (attempt + 1) @ ''/''
                    @ show_nat max_attempts @ '' failed: '' @ e
              in if attempt < max_attempts - 1 then
                   capture_attempts browser max_attempts (attempt + 1) (slept @ [2 ^ attempt])
                 else
                   \<lparr>cr_cookie = None, cr_error = error_msg, cr_attempts = attempt + 1,
                    cr_slept = slept\<rparr>))
      else
        \<lparr>cr_cookie = None, cr_error = ''All cookie capture attempts failed'',
         cr_attempts = attempt, cr_slept = slept\<rparr>)"
  by pat_completeness auto
termination
  by (relation "measure (\<lambda>(browser, max_attempts, attempt, slept). max_attempts - attempt)")
    auto

declare capture_attempts.simps [simp del]

text \<open>\<open>browser url a\<close> is what attempt \<open>a\<close> at opening \<open>url\<close> gives.\<close>

definition capture_cookies_visible_browser ::
  "(string \<Rightarrow> nat \<Rightarrow> browser_outcome) \<Rightarrow> string \<Rightarrow> nat \<Rightarrow> capture_result" where
  "capture_cookies_visible_browser browser review_url max_attempts =
     capture_attempts (browser (ensure_scheme review_url)) max_attempts 0 []"

section \<open>One company\<close>

text \<open>The result dictionary of \<open>process_company\<close>.\<close>

record target_outcome =
  to_url :: string
  to_index :: int
  to_success :: bool
  to_urlname :: "string option"
  to_reviews :: nat
  to_pages :: int
  to_error :: "string option"
  to_timestamp :: string
  to_output_file :: "string option"

text \<open>
  What the pipeline of one company meets: the browser, whether creating the company
  directory raises, the reply to the metadata probe of \<open>process_company\<close>, the replies to
  the two requests of \<open>discover_total_pages\<close>, the fetcher's environment, the clock
  reading and the path of the output file (derived from the urlname by
  \<open>sanitize_filename\<close>, which is not modelled).
\<close>

record company_env =
  browser :: "string \<Rightarrow> nat \<Rightarrow> browser_outcome"
  dir_raises :: "string option"
  meta_reply :: http_reply
  discover_meta_reply :: http_reply
  discover_data_reply :: http_reply
  fetcher :: fetch_env
  clock :: string
  out_file :: string

text \<open>
  \<open>process_company\<close>: an exception in the \<open>try\<close> block becomes the \<open>error\<close> field of the
  result, which keeps \<open>success = False\<close> and the fields set before the exception.
\<close>

definition failed_with :: "target_outcome \<Rightarrow> string \<Rightarrow> target_outcome" where
  "failed_with result msg = result\<lparr>to_error := Some msg\<rparr>"

definition error_text :: "py_error \<Rightarrow> string" where
  "error_text e = (case e of OSError msg \<Rightarrow> msg | other \<Rightarrow> [])"

definition process_company :: "company_env \<Rightarrow> string \<Rightarrow> int \<Rightarrow> target_outcome" where
  "process_company env url idx =
     (let result = \<lparr>to_url = url, to_index = idx, to_success = False, to_urlname = None,
                    to_reviews = 0, to_pages = 0, to_error = None,
                    to_timestamp = clock env, to_output_file = None\<rparr>
      in case extract_urlname_from_url url of
           None \<Rightarrow> failed_with result ''Could not extract urlname from URL''
         | Some urlname \<Rightarrow>
             if urlname = [] then failed_with result ''Could not extract urlname from URL''
             else
               (let r1 = result\<lparr>to_urlname := Some urlname\<rparr> in
                case dir_raises env of
                  Some msg \<Rightarrow> failed_with r1 msg
                | None \<Rightarrow>
                    (let c = capture_cookies_visible_browser (browser env) url 3 in
                     case cr_cookie c of
                       None \<Rightarrow> failed_with r1 (''Cookie capture failed: '' @ cr_error c)
                     | Some cookie_str \<Rightarrow>
                         if cookie_str = [] then
                           failed_with r1 (''Cookie capture failed: '' @ cr_error c)
                         else
                           (case probe_seo_meta (meta_reply env) of
                              None \<Rightarrow> failed_with r1 ''Failed to fetch SEO metadata''
                            | Some seo_data \<Rightarrow>
                                if \<not> truthy seo_data then
                                  failed_with r1 ''Failed to fetch SEO metadata''
                                else
                                  (case extract_company_id seo_data of
                                     None \<Rightarrow> failed_with r1 ''Could not extract company ID''
                                   | Some company_id \<Rightarrow>
                                       if company_id = 0 then
                                         failed_with r1 ''Could not extract company ID''
                                       else
                                         (let total_pages = discover_total_pages
                                                (discover_meta_reply env)
                                                (discover_data_reply env);
                                              r2 = r1\<lparr>to_pages := total_pages\<rparr>
                                          in case run (fetcher env) total_pages of
                                               Inl e \<Rightarrow> failed_with r2 (error_text e)
                                             | Inr (windows, pages_fetched, reviews_written) \<Rightarrow>
                                                 r2\<lparr>to_success := True,
                                                    to_reviews := reviews_written,
                                                    to_output_file := Some (out_file env)\<rparr>))))))"

section \<open>The batch\<close>

text \<open>
  The checkpoint dictionary, and what the checkpoint file can hold: nothing, text that
  cannot be read back as JSON, or a checkpoint. (A file that decodes to JSON of another
  shape is outside this type.)
\<close>

record progress =
  processed :: "target_outcome list"
  failed :: "target_outcome list"
  last_index :: int

datatype disk = NoFile | Unreadable | Stored progress

definition load_batch_progress :: "disk \<Rightarrow> progress" where
  "load_batch_progress d =
     (case d of
        Stored p \<Rightarrow> p
      | Unreadable \<Rightarrow> \<lparr>processed = [], failed = [], last_index = - 1\<rparr>
      | NoFile \<Rightarrow> \<lparr>processed = [], failed = [], last_index = - 1\<rparr>)"

text \<open>
  What a call of \<open>write_text\<close> does: it writes the file, or it raises and leaves the file
  in some state. \<open>save_batch_progress\<close> logs the exception and returns; its result here
  is the content of the file afterwards.
\<close>

datatype fs_write = WriteOk | WriteRaises disk

definition save_batch_progress :: "fs_write \<Rightarrow> progress \<Rightarrow> disk" where
  "save_batch_progress w p = (case w of WriteOk \<Rightarrow> Stored p | WriteRaises left \<Rightarrow> left)"

text \<open>\<open>xs[i]\<close>: a negative index counts from the end.\<close>

definition py_index :: "'a list \<Rightarrow> int \<Rightarrow> py_error + 'a" where
  "py_index xs i =
     (if 0 \<le> i \<and> i < int (length xs) then Inr (xs ! nat i)
      else if i < 0 \<and> - int (length xs) \<le> i then Inr (xs ! nat (int (length xs) + i))
      else Inl IndexError)"

text \<open>
  What a run meets besides the input list: the environment of each company by index,
  whether Ctrl-C arrives while the company of an index is processed, what the write of
  the checkpoint at an index does, what reading the CSV file gives, and whether
  creating the base directory or deleting the checkpoint file raises.
\<close>

datatype csv_read = CsvRaises string | CsvRows "string list"

record world =
  company :: "int \<Rightarrow> company_env"
  interrupted :: "int \<Rightarrow> bool"
  checkpoint_write :: "int \<Rightarrow> fs_write"
  csv :: csv_read
  base_dir_raises :: "string option"
  unlink_raises :: "string option"

text \<open>
  What the loop of \<open>process_batch\<close> does, in order: a blank entry skipped, a company
  processed to its end, Ctrl-C while a company is processed, and a call of
  \<open>save_batch_progress\<close> with the checkpoint passed and the file content after it.
  (Log lines and the pacing sleeps are left out.)
\<close>

datatype event = Skipped int | Attempted int | Interrupted int | Saved progress disk

record batch_state =
  progress :: progress
  disk :: disk
  events :: "event list"
  skipped :: nat

datatype batch_exit = Completed | KeyboardInterrupt | Raised py_error

function batch_loop ::
  "world \<Rightarrow> string list \<Rightarrow> int \<Rightarrow> batch_state \<Rightarrow> batch_exit \<times> batch_state" where
  "batch_loop w companies i st =
     (if i < int (length companies) then
        (case py_index companies i of
           Inl e \<Rightarrow> (Raised e, st)
         | Inr raw \<Rightarrow>
             (let url = strip raw in
              if url = [] then
                batch_loop w companies (i + 1)
                  (st\<lparr>skipped := skipped st + 1, events := events st @ [Skipped i]\<rparr>)
              else if interrupted w i then
                (let d = save_batch_progress (checkpoint_write w i) (progress st) in
                 (KeyboardInterrupt,
                  st\<lparr>disk := d,
                     events := events st @ [Interrupted i, Saved (progress st) d]\<rparr>))
              else
                (let result = process_company (company w i) url i;
                     p1 = (if to_success result
                           then (progress st)\<lparr>processed := processed (progress st) @ [result]\<rparr>
                           else (progress st)\<lparr>failed := failed (progress st) @ [result]\<rparr>);
                     p2 = p1\<lparr>last_index := i\<rparr>;
                     d = save_batch_progress (checkpoint_write w i) p2
                 in batch_loop w companies (i + 1)
                      (st\<lparr>progress := p2, disk := d,
                          events := events st @ [Attempted i, Saved p2 d]\<rparr>))))
      else (Completed, st))"
  by pat_completeness auto
termination
  by (relation "measure (\<lambda>(w, companies, i, st). nat (int (length companies) - i))") auto

declare batch_loop.simps [simp del]

definition process_batch ::
  "world \<Rightarrow> bool \<Rightarrow> string list \<Rightarrow> disk \<Rightarrow> batch_exit \<times> batch_state" where
  "process_batch w resume companies d =
     (let p = load_batch_progress d;
          start_index = (if resume then last_index p + 1 else 0)
      in batch_loop w companies start_index
           \<lparr>progress = p, disk = d, events = [], skipped = 0\<rparr>)"

section \<open>The entry point\<close>

record args =
  resume :: bool
  reset :: bool

text \<open>
  \<open>main_async\<close> after the arguments are parsed: how it ends, the checkpoint file
  afterwards and what the batch loop did.
\<close>

record run_report =
  rr_exit :: batch_exit
  rr_disk :: disk
  rr_events :: "event list"

definition main_async :: "world \<Rightarrow> args \<Rightarrow> disk \<Rightarrow> run_report" where
  "main_async w a d0 =
     (case base_dir_raises w of
        Some msg \<Rightarrow> \<lparr>rr_exit = Raised (OSError msg), rr_disk = d0, rr_events = []\<rparr>
      | None \<Rightarrow>
          (case (if reset a \<and> d0 \<noteq> NoFile then unlink_raises w else None) of
             Some msg \<Rightarrow> \<lparr>rr_exit = Raised (OSError msg), rr_disk = d0, rr_events = []\<rparr>
           | None \<Rightarrow>
               (let d1 = (if reset a then NoFile else d0) in
                case csv w of
                  CsvRaises msg \<Rightarrow>
                    \<lparr>rr_exit = Raised (OSError msg), rr_disk = d1, rr_events = []\<rparr>
                | CsvRows companies \<Rightarrow>
                    if companies = [] then
                      \<lparr>rr_exit = Completed, rr_disk = d1, rr_events = []\<rparr>
                    else
                      (case process_batch w (resume a) companies d1 of
                         (ex, st) \<Rightarrow>
                           \<lparr>rr_exit = ex, rr_disk = disk st, rr_events = events st\<rparr>))))"

text \<open>
  \<open>main\<close>: the exit status of the process with the report. Only an exception other than
  \<open>KeyboardInterrupt\<close> reaches \<open>sys.exit(1)\<close>; a normal return of \<open>main_async\<close> and a
  caught \<open>KeyboardInterrupt\<close> end the process with status 0.
\<close>

definition main :: "world \<Rightarrow> args \<Rightarrow> disk \<Rightarrow> int \<times> run_report" where
  "main w a d0 =
     (let r = main_async w a d0
      in case rr_exit r of
           Completed \<Rightarrow> (0, r)
         | KeyboardInterrupt \<Rightarrow> (0, r)
         | Raised e \<Rightarrow> (1, r))"

section \<open>Reading a run\<close>

text \<open>
  The indices the loop visited (skipped, processed or interrupted), the indices of the
  companies processed to their end, and the \<open>last_index\<close> of every checkpoint passed to
  \<open>save_batch_progress\<close>, each in order.
\<close>

fun visited_indices :: "event list \<Rightarrow> int list" where
  "visited_indices [] = []"
| "visited_indices (Skipped i # es) = i # visited_indices es"
| "visited_indices (Attempted i # es) = i # visited_indices es"
| "visited_indices (Interrupted i # es) = i # visited_indices es"
| "visited_indices (Saved p d # es) = visited_indices es"

fun attempted_indices :: "event list \<Rightarrow> int list" where
  "attempted_indices [] = []"
| "attempted_indices (Attempted i # es) = i # attempted_indices es"
| "attempted_indices (e # es) = attempted_indices es"




text \<open>What the loop does at index \<open>i\<close>, and the pieces of the step that processes a company.\<close>

datatype step = Stop | Crash py_error | Skip | Interrupt | Attempt

definition step_at :: "world \<Rightarrow> string list \<Rightarrow> int \<Rightarrow> step" where
  "step_at w companies i =
     (if i < int (length companies) then
        (case py_index companies i of
           Inl e \<Rightarrow> Crash e
         | Inr raw \<Rightarrow> if strip raw = [] then Skip
                      else if interrupted w i then Interrupt else Attempt)
      else Stop)"

definition outcome_at :: "world \<Rightarrow> string list \<Rightarrow> int \<Rightarrow> target_outcome" where
  "outcome_at w companies i =
     process_company (company w i)
       (strip (case py_index companies i of Inl e \<Rightarrow> [] | Inr raw \<Rightarrow> raw)) i"

definition record_outcome :: "progress \<Rightarrow> target_outcome \<Rightarrow> int \<Rightarrow> progress" where
  "record_outcome p result i =
     (if to_success result then p\<lparr>processed := processed p @ [result], last_index := i\<rparr>
      else p\<lparr>failed := failed p @ [result], last_index := i\<rparr>)"

definition after_attempt :: "world \<Rightarrow> string list \<Rightarrow> int \<Rightarrow> batch_state \<Rightarrow> batch_state" where
  "after_attempt w cs i st =
     st\<lparr>progress := record_outcome (progress st) (outcome_at w cs i) i,
        disk := save_batch_progress (checkpoint_write w i)
                  (record_outcome (progress st) (outcome_at w cs i) i)\<rparr>"

text \<open>The events the loop adds when it runs from index \<open>i\<close> in state \<open>st\<close>.\<close>

definition trail :: "world \<Rightarrow> string list \<Rightarrow> int \<Rightarrow> batch_state \<Rightarrow> event list" where
  "trail w cs i st = events (snd (batch_loop w cs i (st\<lparr>events := []\<rparr>)))"

text \<open>
  An example: every company gets a cookie, has the identifier 42 and three pages, of
  which page 2 fails; nothing interrupts the run and every checkpoint write succeeds.
  In the second example the first checkpoint write raises and leaves no file.
\<close>

definition example_company_env :: company_env where
  "example_company_env =
     \<lparr>browser = (\<lambda>url a. Cookies [(''sid'', ''abc'')]),
      dir_raises = None,
      meta_reply = Reply 200 (Inr (JDict [(''data'',
          JDict [(''company'', JDict [(''id'', JInt 42)]),
                 (''pagination'', JDict [(''totalPages'', JInt 3)])])])),
      discover_meta_reply = Reply 200 (Inr (JDict [(''data'',
          JDict [(''company'', JDict [(''id'', JInt 42)]),
                 (''pagination'', JDict [(''totalPages'', JInt 3)])])])),
      discover_data_reply = ConnError ''timed out'',
      fetcher = example_fetch_env,
      clock = ''2024-01-01T00:00:00'',
      out_file = ''reviews_data/x_reviews/reviews_x.ndjson''\<rparr>"

definition example_companies :: "string list" where
  "example_companies =
     [''https://www.ambitionbox.com/reviews/tcs-reviews'',
      ''https://www.ambitionbox.com/reviews/infosys-reviews'',
      ''   '',
      ''https://www.ambitionbox.com/reviews/wipro-reviews'']"

definition example_world :: world where
  "example_world =
     \<lparr>company = (\<lambda>i. if i = 1 then example_company_env\<lparr>dir_raises := Some ''denied''\<rparr>
                      else example_company_env),
      interrupted = (\<lambda>i. False),
      checkpoint_write = (\<lambda>i. WriteOk),
      csv = CsvRows example_companies,
      base_dir_raises = None,
      unlink_raises = None\<rparr>"


definition empty_input_world :: world where
  "empty_input_world = example_world\<lparr>csv := CsvRows []\<rparr>"

section \<open>Properties of the utilities and of the discovery\<close>

subsection \<open>The urlname of a review URL\<close>

lemma split_on_not_Nil: "split_on sep s \<noteq> []"
  by (induction s) (auto split: list.splits)

lemma extract_urlname_total: "extract_urlname_from_url url \<noteq> None"
  by (simp add: extract_urlname_from_url_def extract_urlname_body_def last_item_def
      split_on_not_Nil Let_def)

lemma extract_urlname_unchanged:
  "\<not> suffix ''-reviews'' (final_segment url) \<Longrightarrow>
   extract_urlname_from_url url = Some (final_segment url)"
  by (simp add: extract_urlname_from_url_def extract_urlname_body_def last_item_def
      final_segment_def split_on_not_Nil Let_def)

text \<open>
  C8. The identifier is claimed to be the final path segment with a trailing
  \<open>-reviews\<close> stripped. The code tests the suffix with \<open>endswith\<close> and then calls
  \<open>replace\<close>, which removes every occurrence: for the slug of a company named
  "Top Reviews Co" the code yields \<open>top-co\<close>, where stripping the suffix yields
  \<open>top-reviews-co\<close>.
\<close>

theorem extract_urlname_removes_inner_occurrence:
  "extract_urlname_from_url ''https://www.ambitionbox.com/reviews/top-reviews-co-reviews''
     = Some ''top-co''
   \<and> strip_reviews_suffix
       (final_segment ''https://www.ambitionbox.com/reviews/top-reviews-co-reviews'')
     = ''top-reviews-co''"
  by code_simp

subsection \<open>The numeric identifier\<close>

text \<open>
  C9 (as amended). \<open>extract_company_id\<close> never raises: whatever its body raises becomes
  \<open>None\<close>. It returns \<open>None\<close> exactly when looking up the nested \<open>id\<close> raises (a
  non-dictionary on the way), or the value found is falsy (absent, null, \<open>0\<close>, \<open>0.0\<close>,
  \<open>false\<close>, an empty string or container), or \<open>int\<close> rejects it. For an integer
  identifier \<open>n\<close> it returns \<open>n\<close> when \<open>n\<close> is not zero and \<open>None\<close> when it is zero.
\<close>

theorem extract_company_id_cases:
  "(extract_company_id j = None \<longleftrightarrow>
      (case company_id_field j of
         Inl e \<Rightarrow> True
       | Inr cid \<Rightarrow> \<not> truthy cid \<or> isl (py_int cid)))
   \<and> (company_id_field j = Inr (JInt n) \<longrightarrow>
        extract_company_id j = (if n = 0 then None else Some n))
   \<and> extract_company_id (JDict [(''data'', JDict [(''company'', JDict [(''id'', JInt n)])])])
       = (if n = 0 then None else Some n)"
  by (auto simp: company_id_field_def extract_company_id_def extract_company_id_body_def
      and_then_def py_or_def isl_def split: sum.splits)

text \<open>The theorem at a metadata body without a \<open>data\<close> wrapper and with identifier 7.\<close>

theorem extract_company_id_cases_witness:
  "company_id_field (JDict [(''company'', JDict [(''id'', JInt 7)])]) = Inr (JInt 7)
   \<and> extract_company_id (JDict [(''company'', JDict [(''id'', JInt 7)])]) = Some 7"
  using extract_company_id_cases [of "JDict [(''company'', JDict [(''id'', JInt 7)])]" 7]
  by (simp add: company_id_field_def and_then_def py_or_def)

text \<open>
  The claim as first stated fails: the identifier \<open>0\<close> is present and numeric, and the
  result is \<open>None\<close>, because \<open>int(cid) if cid else None\<close> tests the truth value of \<open>cid\<close>.
\<close>

theorem extract_company_id_zero_counterexample:
  "company_id_field (JDict [(''data'', JDict [(''company'', JDict [(''id'', JInt 0)])])])
     = Inr (JInt 0)
   \<and> extract_company_id (JDict [(''data'', JDict [(''company'', JDict [(''id'', JInt 0)])])])
     = None"
  by (simp add: company_id_field_def extract_company_id_def extract_company_id_body_def
      and_then_def py_or_def)

subsection \<open>Page discovery\<close>

text \<open>
  C5. \<open>discover_total_pages\<close> returns an integer that is at least 1 for every pair of
  replies (an exception inside either phase only makes that phase fall through). When
  neither phase finds a count greater than one the result is 1. When the metadata body
  reports \<open>totalPages = 1\<close> and page 1 of the data endpoint reports \<open>totalPages = 7\<close>, the
  result is 7.
\<close>

theorem discover_total_pages_at_least_one:
  "discover_total_pages m d \<ge> 1
   \<and> (seo_phase m = None \<and> data_phase d = None \<longrightarrow> discover_total_pages m d = 1)
   \<and> (probe_seo_meta m = Some seo \<and> pagination_total seo = Inr 1
        \<and> pagination_total body = Inr 7 \<longrightarrow>
      discover_total_pages m (Reply 200 (Inr body)) = 7)
   \<and> discover_total_pages
        (Reply 200 (Inr (JDict [(''data'',
           JDict [(''pagination'', JDict [(''totalPages'', JInt 1)])])])))
        (Reply 200 (Inr (JDict [(''data'',
           JDict [(''pagination'', JDict [(''totalPages'', JInt 7)])])])))
      = 7"
  by (auto simp: discover_total_pages_def seo_phase_def data_phase_def probe_seo_meta_def
      pagination_total_def and_then_def py_or_def
      split: option.splits sum.splits if_splits http_reply.splits)

text \<open>
  The theorem where both requests fail to connect, and where the metadata body
  \<open>{"data": {"pagination": {"totalPages": "1"}}}\<close> meets a data body reporting 7 pages.
\<close>

theorem discover_total_pages_at_least_one_witness:
  "seo_phase (ConnError ''timed out'') = None
   \<and> data_phase (ConnError ''timed out'') = None
   \<and> discover_total_pages (ConnError ''timed out'') (ConnError ''timed out'') = 1
   \<and> discover_total_pages
        (Reply 200 (Inr (JDict [(''data'',
           JDict [(''pagination'', JDict [(''totalPages'', JStr ''1'')])])])))
        (Reply 200 (Inr (JDict [(''data'',
           JDict [(''pagination'', JDict [(''totalPages'', JFloat (Finite 7))])])])))
      = 7"
  using discover_total_pages_at_least_one
    [of "ConnError ''timed out''" "ConnError ''timed out''"]
    discover_total_pages_at_least_one
    [of "Reply 200 (Inr (JDict [(''data'',
           JDict [(''pagination'', JDict [(''totalPages'', JStr ''1'')])])]))"
        _
        "JDict [(''data'', JDict [(''pagination'', JDict [(''totalPages'', JStr ''1'')])])]"
        "JDict [(''data'',
           JDict [(''pagination'', JDict [(''totalPages'', JFloat (Finite 7))])])]"]
  by (simp add: seo_phase_def data_phase_def probe_seo_meta_def pagination_total_def
      and_then_def py_or_def int_of_str_def strip_def is_space_def unsigned_value_def
      is_digit_def digit_val_def)

section \<open>Retry and backoff of one page\<close>

lemma fetch_attempts_rate_limited:
  "attempt < RETRIES \<Longrightarrow> rate_limited (net attempt) \<Longrightarrow>
   fetch_attempts net jit attempt slept =
   fetch_attempts net jit (Suc attempt) (slept @ [BACKOFF_BASE ^ attempt + jit attempt])"
  by (subst fetch_attempts.simps) (auto simp: rate_limited_def split: http_reply.splits)

lemma fetch_attempts_skip:
  "a \<le> n \<Longrightarrow> n \<le> RETRIES \<Longrightarrow> (\<forall>k. a \<le> k \<and> k < n \<longrightarrow> rate_limited (net k)) \<Longrightarrow>
   fetch_attempts net jit a slept =
   fetch_attempts net jit n (slept @ map (\<lambda>k. BACKOFF_BASE ^ k + jit k) [a..<n])"
proof (induction "n - a" arbitrary: a slept)
  case 0
  then show ?case by simp
next
  case (Suc d)
  then have lt: "a < n" and rl: "rate_limited (net a)" by auto
  have step: "fetch_attempts net jit a slept =
     fetch_attempts net jit (Suc a) (slept @ [BACKOFF_BASE ^ a + jit a])"
    using lt Suc.prems(2) rl by (intro fetch_attempts_rate_limited) auto
  have "fetch_attempts net jit (Suc a) (slept @ [BACKOFF_BASE ^ a + jit a]) =
     fetch_attempts net jit n ((slept @ [BACKOFF_BASE ^ a + jit a]) @ map (\<lambda>k. BACKOFF_BASE ^ k + jit k) [Suc a..<n])"
    using Suc.hyps(2) Suc.prems lt by (intro Suc.hyps(1)) auto
  with step lt show ?case by (simp add: upt_conv_Cons)
qed

lemma fetch_attempts_step:
  "a < RETRIES \<Longrightarrow>
   fetch_attempts net jit a slept =
     fetch_attempts net jit (Suc a) (slept @ [BACKOFF_BASE ^ a + jit a])
   \<or> (fr_slept (fetch_attempts net jit a slept) = slept
      \<and> fr_attempts (fetch_attempts net jit a slept) = Suc a)"
  unfolding fetch_attempts.simps [of net jit a slept]
  by (simp split: http_reply.splits sum.splits)

lemma fetch_attempts_done:
  "\<not> a < RETRIES \<Longrightarrow>
   fetch_attempts net jit a slept =
     \<lparr>fr_data = JNull, fr_err = Some ''max_retries_exceeded'', fr_slept = slept,
      fr_attempts = a\<rparr>"
  by (subst fetch_attempts.simps) simp

lemma fetch_attempts_prefix:
  "prefix slept (fr_slept (fetch_attempts net jit a slept))"
proof (induction "RETRIES - a" arbitrary: a slept)
  case 0
  then show ?case by (simp add: fetch_attempts_done)
next
  case (Suc d)
  then have lt: "a < RETRIES" by simp
  have ih: "prefix (slept @ [BACKOFF_BASE ^ a + jit a])
     (fr_slept (fetch_attempts net jit (Suc a) (slept @ [BACKOFF_BASE ^ a + jit a])))"
    using Suc.hyps(2) by (intro Suc.hyps(1)) simp
  from fetch_attempts_step [OF lt, of net jit slept] ih show ?case
    by (auto dest: append_prefixD)
qed

lemma fetch_attempts_count:
  "a < RETRIES \<Longrightarrow> a < fr_attempts (fetch_attempts net jit a slept)"
proof (induction "RETRIES - a" arbitrary: a slept)
  case 0
  then show ?case by simp
next
  case (Suc d)
  show ?case
  proof (cases "Suc a < RETRIES")
    case True
    have "Suc a < fr_attempts (fetch_attempts net jit (Suc a) (slept @ [BACKOFF_BASE ^ a + jit a]))"
      using Suc.hyps(2) True by (intro Suc.hyps(1)) simp_all
    with fetch_attempts_step [OF Suc.prems, of net jit slept] show ?thesis by auto
  next
    case False
    with fetch_attempts_step [OF Suc.prems, of net jit slept] show ?thesis
      by (auto simp: fetch_attempts_done)
  qed
qed


text \<open>
  C4. A page that meets only rate-limit replies (429 or 503) makes exactly five requests,
  sleeps \<open>2 ^ a\<close> seconds plus jitter after the request of each attempt \<open>a\<close>, and
  ends with the explicit failure \<open>max_retries_exceeded\<close>. When the first \<open>n\<close> replies
  are rate-limit replies, \<open>1 \<le> n < 5\<close>, the \<open>n\<close>-th retry takes place and the sleep
  before it is \<open>2 ^ (n - 1)\<close> seconds plus the jitter, so at least \<open>2 ^ (n - 1)\<close> seconds
  as the jitter is not negative.
\<close>

theorem fetch_page_json_backoff:
  "((\<forall>a < RETRIES. rate_limited (net a)) \<longrightarrow>
      fetch_page_json net jit =
        \<lparr>fr_data = JNull, fr_err = Some ''max_retries_exceeded'',
         fr_slept = map (\<lambda>a. 2 ^ a + jit a) [0..<5], fr_attempts = 5\<rparr>)
   \<and> (1 \<le> n \<and> n < RETRIES \<and> (\<forall>a < n. rate_limited (net a)) \<longrightarrow>
        n < fr_attempts (fetch_page_json net jit)
        \<and> n \<le> length (fr_slept (fetch_page_json net jit))
        \<and> fr_slept (fetch_page_json net jit) ! (n - 1) = 2 ^ (n - 1) + jit (n - 1)
        \<and> (0 \<le> jit (n - 1) \<longrightarrow> 2 ^ (n - 1) \<le> fr_slept (fetch_page_json net jit) ! (n - 1)))"
proof (intro conjI impI)
  assume all: "\<forall>a < RETRIES. rate_limited (net a)"
  have "fetch_page_json net jit =
     fetch_attempts net jit RETRIES ([] @ map (\<lambda>k. BACKOFF_BASE ^ k + jit k) [0..<RETRIES])"
    unfolding fetch_page_json_def using all by (intro fetch_attempts_skip) auto
  then show "fetch_page_json net jit =
        \<lparr>fr_data = JNull, fr_err = Some ''max_retries_exceeded'',
         fr_slept = map (\<lambda>a. 2 ^ a + jit a) [0..<5], fr_attempts = 5\<rparr>"
    by (simp add: fetch_attempts_done) (simp add: RETRIES_def BACKOFF_BASE_def)
next
  assume h: "1 \<le> n \<and> n < RETRIES \<and> (\<forall>a < n. rate_limited (net a))"
  let ?pre = "map (\<lambda>k. BACKOFF_BASE ^ k + jit k) [0..<n]"
  have eq: "fetch_page_json net jit = fetch_attempts net jit n ([] @ ?pre)"
    unfolding fetch_page_json_def using h by (intro fetch_attempts_skip) auto
  have pre: "prefix ?pre (fr_slept (fetch_page_json net jit))"
    using fetch_attempts_prefix [of ?pre net jit n] eq by simp
  show "n < fr_attempts (fetch_page_json net jit)"
    using fetch_attempts_count [of n net jit ?pre] h eq by simp
  from pre obtain rest where sl: "fr_slept (fetch_page_json net jit) = ?pre @ rest"
    by (auto simp: prefix_def)
  show "n \<le> length (fr_slept (fetch_page_json net jit))"
    by (simp add: sl)
  show nth: "fr_slept (fetch_page_json net jit) ! (n - 1) = 2 ^ (n - 1) + jit (n - 1)"
    using h by (simp add: sl nth_append BACKOFF_BASE_def)
  show "2 ^ (n - 1) \<le> fr_slept (fetch_page_json net jit) ! (n - 1)" if "0 \<le> jit (n - 1)"
    using that nth by simp
qed

text \<open>The theorem for a page that is answered 429 every time, with jitter one half.\<close>

theorem fetch_page_json_backoff_witness:
  "fetch_page_json (\<lambda>a. Reply 429 (Inl [])) (\<lambda>a. 1 / 2) =
        \<lparr>fr_data = JNull, fr_err = Some ''max_retries_exceeded'',
         fr_slept = [3 / 2, 5 / 2, 9 / 2, 17 / 2, 33 / 2], fr_attempts = 5\<rparr>
   \<and> fr_slept (fetch_page_json (\<lambda>a. Reply 429 (Inl [])) (\<lambda>a. 1 / 2)) ! (3 - 1)
       = 2 ^ (3 - 1) + 1 / 2"
proof -
  have u: "[0..<5] = [0, 1, 2, 3, 4 :: nat]" by code_simp
  show ?thesis
    using fetch_page_json_backoff [of "\<lambda>a. Reply 429 (Inl [])" "\<lambda>a. 1 / 2" 3]
    by (simp add: rate_limited_def RETRIES_def u)
qed

section \<open>The window loop\<close>

lemma tally_append: "tally (xs @ ys) cs = tally ys (tally xs cs)"
  by (simp add: tally_def)

lemma tally_eq:
  "tally (map f pages) (pf, rw) =
     (pf + length (filter (\<lambda>p. fst (f p)) pages),
      rw + sum_list (map (\<lambda>p. snd (f p)) (filter (\<lambda>p. fst (f p)) pages)))"
proof (induction pages arbitrary: pf rw)
  case Nil
  then show ?case by (simp add: tally_def)
next
  case (Cons p ps)
  have "tally (map f (p # ps)) (pf, rw) =
      tally (map f ps) (if fst (f p) then (pf + 1, rw + snd (f p)) else (pf, rw))"
    by (simp add: tally_def split: prod.splits)
  then show ?case using Cons.IH by simp
qed

lemma window_split:
  "start < total_pages + 1 \<Longrightarrow>
   [start..total_pages] =
     [start..min (start + batch_size) (total_pages + 1) - 1] @ [start + batch_size..total_pages]"
proof (cases "start + batch_size \<le> total_pages")
  case True
  then have "min (start + batch_size) (total_pages + 1) = start + batch_size" by simp
  moreover have "[start..total_pages] = [start..start + batch_size - 1] @ [start + batch_size..total_pages]"
    using True by (intro upto_split1) (simp_all add: batch_size_def)
  ultimately show ?thesis by simp
next
  case False
  then show ?thesis by simp
qed

lemma run_windows_step:
  "start < total_pages + 1 \<Longrightarrow>
   run_windows env start total_pages (ws, cs) =
     run_windows env (start + batch_size) total_pages
       (ws @ [[start..min (start + batch_size) (total_pages + 1) - 1]],
        tally (map (process_page env) [start..min (start + batch_size) (total_pages + 1) - 1]) cs)"
  by (subst run_windows.simps) (simp add: Let_def)

lemma run_windows_stop:
  "\<not> start < total_pages + 1 \<Longrightarrow> run_windows env start total_pages (ws, cs) = (ws, cs)"
  by (subst run_windows.simps) simp

lemma run_windows_pages:
  "concat (fst (run_windows env start total_pages (ws, cs))) = concat ws @ [start..total_pages]"
proof (induction env start total_pages "(ws, cs)" arbitrary: ws cs rule: run_windows.induct)
  case (1 env start total_pages ws cs)
  show ?case
  proof (cases "start < total_pages + 1")
    case True
    show ?thesis
      using "1.hyps" [OF True refl refl refl] window_split [OF True]
      by (simp add: run_windows_step [OF True])
  next
    case False
    then show ?thesis by (simp add: run_windows_stop)
  qed
qed

lemma run_windows_counts:
  "snd (run_windows env start total_pages (ws, cs)) =
     tally (map (process_page env) [start..total_pages]) cs"
proof (induction env start total_pages "(ws, cs)" arbitrary: ws cs rule: run_windows.induct)
  case (1 env start total_pages ws cs)
  show ?case
  proof (cases "start < total_pages + 1")
    case True
    show ?thesis
      using "1.hyps" [OF True refl refl refl]
      by (simp add: run_windows_step [OF True] tally_append [symmetric] 
          window_split [OF True, symmetric] del: map_append flip: map_append)
  next
    case False
    then show ?thesis by (simp add: run_windows_stop tally_def)
  qed
qed

lemma run_windows_sizes:
  "w \<in> set (fst (run_windows env start total_pages (ws, cs))) \<Longrightarrow>
   w \<in> set ws \<or> (w \<noteq> [] \<and> length w \<le> 50)"
proof (induction env start total_pages "(ws, cs)" arbitrary: ws cs rule: run_windows.induct)
  case (1 env start total_pages ws cs)
  show ?case
  proof (cases "start < total_pages + 1")
    case True
    have "w \<in> set (ws @ [[start..min (start + batch_size) (total_pages + 1) - 1]])
       \<or> (w \<noteq> [] \<and> length w \<le> 50)"
      using "1.hyps" [OF True refl refl refl] "1.prems"
      by (simp add: run_windows_step [OF True])
    moreover have "[start..min (start + batch_size) (total_pages + 1) - 1] \<noteq> []"
      using True by (simp add: batch_size_def)
    moreover have "length [start..min (start + batch_size) (total_pages + 1) - 1] \<le> 50"
      by (simp add: batch_size_def)
    ultimately show ?thesis by auto
  next
    case False
    with "1.prems" show ?thesis by (simp add: run_windows_stop)
  qed
qed

lemma process_page_failed: "\<not> fst (process_page env p) \<Longrightarrow> snd (process_page env p) = 0"
  by (auto simp: process_page_def Let_def split: sum.splits json.splits if_splits)

text \<open>
  C3. For \<open>total_pages \<ge> 1\<close> (and an output directory that can be created) \<open>run\<close>
  dispatches the pages \<open>1, \<dots>, total_pages\<close> each exactly once, in windows of at least one
  and at most 50 pages, one window after the other. It returns the number of pages for
  which \<open>process_page\<close> reported success and the sum of the record counts of exactly
  those pages. A failed page has record count 0, and no failure changes which pages are
  dispatched.
\<close>

theorem run_counts_successful_pages:
  assumes "1 \<le> total_pages" and "mkdir_raises env = None"
  shows "\<exists>windows pages_fetched reviews_written.
     run env total_pages = Inr (windows, pages_fetched, reviews_written)
     \<and> concat windows = [1..total_pages]
     \<and> (\<forall>w \<in> set windows. w \<noteq> [] \<and> length w \<le> 50)
     \<and> pages_fetched = length (filter (\<lambda>p. fst (process_page env p)) [1..total_pages])
     \<and> reviews_written =
         sum_list (map (\<lambda>p. snd (process_page env p))
           (filter (\<lambda>p. fst (process_page env p)) [1..total_pages]))
     \<and> (\<forall>p. \<not> fst (process_page env p) \<longrightarrow> snd (process_page env p) = 0)"
proof -
  obtain ws pf rw where r: "run_windows env 1 total_pages ([], 0, 0) = (ws, pf, rw)"
    by (metis prod_cases3)
  have "concat ws = [1..total_pages]"
    using run_windows_pages [of env 1 total_pages "[]" "(0, 0)"] r by simp
  moreover have "\<forall>w \<in> set ws. w \<noteq> [] \<and> length w \<le> 50"
    using run_windows_sizes [of _ env 1 total_pages "[]" "(0, 0)"] r by auto
  moreover have "(pf, rw) = tally (map (process_page env) [1..total_pages]) (0, 0)"
    using run_windows_counts [of env 1 total_pages "[]" "(0, 0)"] r by simp
  then have "pf = length (filter (\<lambda>p. fst (process_page env p)) [1..total_pages])"
    and "rw = sum_list (map (\<lambda>p. snd (process_page env p))
           (filter (\<lambda>p. fst (process_page env p)) [1..total_pages]))"
    by (simp_all add: tally_eq)
  ultimately show ?thesis
    using assms(2) r by (simp add: run_def process_page_failed)
qed


text \<open>
  The theorem on the example: three pages in one window, page 2 fails, the other two give
  two records each.
\<close>

theorem run_counts_successful_pages_witness:
  "(1::int) \<le> 3 \<and> mkdir_raises example_fetch_env = None
   \<and> run example_fetch_env 3 = Inr ([[1, 2, 3]], 2, 4)
   \<and> concat [[1, 2, 3]] = [1..3]
   \<and> length (filter (\<lambda>p. fst (process_page example_fetch_env p)) [1..3]) = 2"
proof -
  have r: "run example_fetch_env 3 = Inr ([[1, 2, 3]], 2, 4)" by code_simp
  have m: "mkdir_raises example_fetch_env = None" by (simp add: example_fetch_env_def)
  from run_counts_successful_pages [OF _ m, of 3] r show ?thesis
    using m by auto
qed

section \<open>Attempts and sleeps of the cookie capture\<close>

lemma capture_attempts_bounds:
  "attempt \<le> max_attempts \<Longrightarrow>
   cr_attempts (capture_attempts br max_attempts attempt slept) \<le> max_attempts"
proof (induction "max_attempts - attempt" arbitrary: attempt slept)
  case 0
  then show ?case by (subst capture_attempts.simps) simp
next
  case (Suc d)
  then have lt: "attempt < max_attempts" by simp
  have ih: "cr_attempts (capture_attempts br max_attempts (attempt + 1) s) \<le> max_attempts" for s
    using Suc.hyps(2) lt by (intro Suc.hyps(1)) simp_all
  show ?case
    unfolding capture_attempts.simps [of br max_attempts attempt slept]
    using lt ih by (simp split: browser_outcome.splits add: Let_def)
qed

text \<open>
  C6. The capture is claimed to sleep \<open>2 ^ attempt\<close> seconds between consecutive attempts
  after every failed attempt, the attempt without cookies included. The code sleeps in
  its \<open>except\<close> branch only. When each of the three attempts loads the page and reads
  back no cookie, all three attempts are made without any sleep, and the failure marker
  is returned; when each attempt raises, the sleeps are 1 and 2 seconds.
\<close>

theorem capture_cookies_no_sleep_without_cookies:
  "capture_cookies_visible_browser (\<lambda>url a. Cookies [])
      ''https://www.ambitionbox.com/reviews/tcs-reviews'' 3
    = \<lparr>cr_cookie = None, cr_error = ''All cookie capture attempts failed'',
       cr_attempts = 3, cr_slept = []\<rparr>
  \<and> capture_cookies_visible_browser (\<lambda>url a. BrowserError ''Timeout'')
      ''https://www.ambitionbox.com/reviews/tcs-reviews'' 3
    = \<lparr>cr_cookie = None, cr_error = ''Attempt 3/3 failed: Timeout'',
       cr_attempts = 3, cr_slept = [1, 2]\<rparr>"
  by code_simp

section \<open>The batch loop, step by step\<close>

lemma step_at_cases:
  "step_at w cs i = Stop \<longleftrightarrow> \<not> i < int (length cs)"
  "step_at w cs i = Crash e \<longleftrightarrow> i < int (length cs) \<and> py_index cs i = Inl e"
  "step_at w cs i = Skip \<longleftrightarrow>
     i < int (length cs) \<and> (\<exists>raw. py_index cs i = Inr raw \<and> strip raw = [])"
  "step_at w cs i = Interrupt \<longleftrightarrow>
     i < int (length cs) \<and> (\<exists>raw. py_index cs i = Inr raw \<and> strip raw \<noteq> [] \<and> interrupted w i)"
  "step_at w cs i = Attempt \<longleftrightarrow>
     i < int (length cs) \<and> (\<exists>raw. py_index cs i = Inr raw \<and> strip raw \<noteq> [] \<and> \<not> interrupted w i)"
  by (auto simp: step_at_def split: sum.splits)

lemma batch_loop_stop:
  "step_at w cs i = Stop \<Longrightarrow> batch_loop w cs i st = (Completed, st)"
  unfolding batch_loop.simps [of w cs i st] by (simp add: step_at_cases)

lemma batch_loop_crash:
  "step_at w cs i = Crash e \<Longrightarrow> batch_loop w cs i st = (Raised e, st)"
  unfolding batch_loop.simps [of w cs i st] by (simp add: step_at_cases)

lemma batch_loop_skip:
  assumes "step_at w cs i = Skip"
  shows "batch_loop w cs i st =
     batch_loop w cs (i + 1) (st\<lparr>skipped := skipped st + 1, events := events st @ [Skipped i]\<rparr>)"
proof -
  from assms obtain raw where "i < int (length cs)" "py_index cs i = Inr raw" "strip raw = []"
    by (auto simp: step_at_cases)
  then show ?thesis
    unfolding batch_loop.simps [of w cs i st] by (simp add: Let_def)
qed

lemma batch_loop_interrupt:
  assumes "step_at w cs i = Interrupt"
  shows "batch_loop w cs i st =
     (KeyboardInterrupt,
      st\<lparr>disk := save_batch_progress (checkpoint_write w i) (progress st),
         events := events st @ [Interrupted i,
            Saved (progress st) (save_batch_progress (checkpoint_write w i) (progress st))]\<rparr>)"
proof -
  from assms obtain raw where "i < int (length cs)" "py_index cs i = Inr raw"
      "strip raw \<noteq> []" "interrupted w i"
    by (auto simp: step_at_cases)
  then show ?thesis
    unfolding batch_loop.simps [of w cs i st] by (simp add: Let_def)
qed

lemma batch_loop_attempt:
  assumes "step_at w cs i = Attempt"
  shows "batch_loop w cs i st =
     batch_loop w cs (i + 1)
       (st\<lparr>progress := record_outcome (progress st) (outcome_at w cs i) i,
           disk := save_batch_progress (checkpoint_write w i)
                     (record_outcome (progress st) (outcome_at w cs i) i),
           events := events st @ [Attempted i,
              Saved (record_outcome (progress st) (outcome_at w cs i) i)
                (save_batch_progress (checkpoint_write w i)
                   (record_outcome (progress st) (outcome_at w cs i) i))]\<rparr>)"
proof -
  from assms obtain raw where "i < int (length cs)" "py_index cs i = Inr raw"
      "strip raw \<noteq> []" "\<not> interrupted w i"
    by (auto simp: step_at_cases)
  then show ?thesis
    unfolding batch_loop.simps [of w cs i st]
    by (simp add: Let_def outcome_at_def record_outcome_def)
qed

text \<open>An induction principle for the loop.\<close>
lemma batch_loop_induct [case_names Stop Crash Skip Interrupt Attempt]:
  assumes "\<And>i st. step_at w cs i = Stop \<Longrightarrow> P i st"
      and "\<And>i st e. step_at w cs i = Crash e \<Longrightarrow> P i st"
      and "\<And>i st. step_at w cs i = Skip \<Longrightarrow>
             P (i + 1) (st\<lparr>skipped := skipped st + 1, events := events st @ [Skipped i]\<rparr>) \<Longrightarrow> P i st"
      and "\<And>i st. step_at w cs i = Interrupt \<Longrightarrow> P i st"
      and "\<And>i st. step_at w cs i = Attempt \<Longrightarrow>
             P (i + 1) (st\<lparr>progress := record_outcome (progress st) (outcome_at w cs i) i,
           disk := save_batch_progress (checkpoint_write w i)
                     (record_outcome (progress st) (outcome_at w cs i) i),
           events := events st @ [Attempted i,
              Saved (record_outcome (progress st) (outcome_at w cs i) i)
                (save_batch_progress (checkpoint_write w i)
                   (record_outcome (progress st) (outcome_at w cs i) i))]\<rparr>) \<Longrightarrow> P i st"
  shows "P i st"
proof (induction "nat (int (length cs) - i)" arbitrary: i st rule: less_induct)
  case less
  show ?case
  proof (cases "step_at w cs i")
    case Stop
    then show ?thesis by (rule assms(1))
  next
    case (Crash e)
    then show ?thesis by (rule assms(2))
  next
    case Skip
    then have lt: "i < int (length cs)" by (simp add: step_at_cases)
    show ?thesis
      by (rule assms(3) [OF Skip], rule less) (use lt in simp)
  next
    case Interrupt
    then show ?thesis by (rule assms(4))
  next
    case Attempt
    then have lt: "i < int (length cs)" by (simp add: step_at_cases)
    show ?thesis
      by (rule assms(5) [OF Attempt], rule less) (use lt in simp)
  qed
qed

lemma batch_loop_events_prefix:
  "batch_loop w cs i (st\<lparr>events := pre @ events st\<rparr>) =
     (case batch_loop w cs i st of (ex, s) \<Rightarrow> (ex, s\<lparr>events := pre @ events s\<rparr>))"
proof (induction i st rule: batch_loop_induct [of w cs])
  case (Stop i st)
  then show ?case by (simp add: batch_loop_stop)
next
  case (Crash i st e)
  then show ?case by (simp add: batch_loop_crash)
next
  case (Skip i st)
  then show ?case by (simp add: batch_loop_skip)
next
  case (Interrupt i st)
  then show ?case by (simp add: batch_loop_interrupt)
next
  case (Attempt i st)
  then show ?case by (simp add: batch_loop_attempt)
qed

lemma events_batch_loop:
  "events (snd (batch_loop w cs i st)) = events st @ trail w cs i st"
  using batch_loop_events_prefix [of w cs i "events st" "st\<lparr>events := []\<rparr>"]
  by (simp add: trail_def split: prod.splits)

lemma trail_events_irrelevant [simp]: "trail w cs i (st\<lparr>events := es\<rparr>) = trail w cs i st"
  by (simp add: trail_def)

lemma trail_stop: "step_at w cs i = Stop \<Longrightarrow> trail w cs i st = []"
  by (simp add: trail_def batch_loop_stop)

lemma trail_crash: "step_at w cs i = Crash e \<Longrightarrow> trail w cs i st = []"
  by (simp add: trail_def batch_loop_crash)

lemma trail_skip:
  "step_at w cs i = Skip \<Longrightarrow>
   trail w cs i st = Skipped i # trail w cs (i + 1) (st\<lparr>skipped := skipped st + 1\<rparr>)"
  using events_batch_loop [of w cs "i + 1" "st\<lparr>skipped := skipped st + 1, events := [Skipped i]\<rparr>"]
  by (simp add: trail_def batch_loop_skip)

lemma trail_interrupt:
  "step_at w cs i = Interrupt \<Longrightarrow>
   trail w cs i st =
     [Interrupted i,
      Saved (progress st) (save_batch_progress (checkpoint_write w i) (progress st))]"
  by (simp add: trail_def batch_loop_interrupt)

lemma trail_attempt:
  "step_at w cs i = Attempt \<Longrightarrow>
   trail w cs i st =
     Attempted i # Saved (progress (after_attempt w cs i st)) (disk (after_attempt w cs i st))
       # trail w cs (i + 1) (after_attempt w cs i st)"
  using events_batch_loop [of w cs "i + 1"
      "(after_attempt w cs i st)\<lparr>events := [Attempted i,
          Saved (progress (after_attempt w cs i st)) (disk (after_attempt w cs i st))]\<rparr>"]
  by (simp add: trail_def batch_loop_attempt after_attempt_def)

lemma last_index_record_outcome [simp]: "last_index (record_outcome p r i) = i"
  by (simp add: record_outcome_def)

lemma progress_after_attempt [simp]:
  "progress (after_attempt w cs i st) = record_outcome (progress st) (outcome_at w cs i) i"
  by (simp add: after_attempt_def)

lemma disk_after_attempt [simp]:
  "disk (after_attempt w cs i st) =
     save_batch_progress (checkpoint_write w i)
       (record_outcome (progress st) (outcome_at w cs i) i)"
  by (simp add: after_attempt_def)

text \<open>What the loop returns does not depend on the events recorded before it.\<close>

lemma batch_loop_events_irrelevant [simp]:
  "fst (batch_loop w cs i (st\<lparr>events := es\<rparr>)) = fst (batch_loop w cs i st)"
  "progress (snd (batch_loop w cs i (st\<lparr>events := es\<rparr>))) = progress (snd (batch_loop w cs i st))"
  "disk (snd (batch_loop w cs i (st\<lparr>events := es\<rparr>))) = disk (snd (batch_loop w cs i st))"
  "skipped (snd (batch_loop w cs i (st\<lparr>events := es\<rparr>))) = skipped (snd (batch_loop w cs i st))"
  using batch_loop_events_prefix [of w cs i es "st\<lparr>events := []\<rparr>"]
    batch_loop_events_prefix [of w cs i "events st" "st\<lparr>events := []\<rparr>"]
  by (simp_all split: prod.splits)

lemma batch_loop_skip':
  "step_at w cs i = Skip \<Longrightarrow>
   fst (batch_loop w cs i st) = fst (batch_loop w cs (i + 1) (st\<lparr>skipped := skipped st + 1\<rparr>))
   \<and> progress (snd (batch_loop w cs i st))
       = progress (snd (batch_loop w cs (i + 1) (st\<lparr>skipped := skipped st + 1\<rparr>)))
   \<and> disk (snd (batch_loop w cs i st))
       = disk (snd (batch_loop w cs (i + 1) (st\<lparr>skipped := skipped st + 1\<rparr>)))"
  by (simp add: batch_loop_skip)

lemma batch_loop_attempt':
  "step_at w cs i = Attempt \<Longrightarrow>
   fst (batch_loop w cs i st) = fst (batch_loop w cs (i + 1) (after_attempt w cs i st))
   \<and> progress (snd (batch_loop w cs i st))
       = progress (snd (batch_loop w cs (i + 1) (after_attempt w cs i st)))
   \<and> disk (snd (batch_loop w cs i st))
       = disk (snd (batch_loop w cs (i + 1) (after_attempt w cs i st)))"
  by (simp add: batch_loop_attempt after_attempt_def)

text \<open>Induction along the loop for a property that does not look at the events.\<close>

lemma batch_loop_cases_induct [case_names Events Stop Crash Skip Interrupt Attempt]:
  assumes ev: "\<And>i st es. P i (st\<lparr>events := es\<rparr>) = P i st"
      and "\<And>i st. step_at w cs i = Stop \<Longrightarrow> P i st"
      and "\<And>i st e. step_at w cs i = Crash e \<Longrightarrow> P i st"
      and "\<And>i st. step_at w cs i = Skip \<Longrightarrow>
             P (i + 1) (st\<lparr>skipped := skipped st + 1\<rparr>) \<Longrightarrow> P i st"
      and "\<And>i st. step_at w cs i = Interrupt \<Longrightarrow> P i st"
      and "\<And>i st. step_at w cs i = Attempt \<Longrightarrow>
             P (i + 1) (after_attempt w cs i st) \<Longrightarrow> P i st"
  shows "P i st"
proof (induction i st rule: batch_loop_induct [of w cs])
  case (Stop i st)
  then show ?case by (rule assms(2))
next
  case (Crash i st e)
  then show ?case by (rule assms(3))
next
  case (Skip i st)
  from Skip(2) have "P (i + 1) ((st\<lparr>skipped := skipped st + 1\<rparr>)\<lparr>events := events st @ [Skipped i]\<rparr>)"
    by simp
  then have "P (i + 1) (st\<lparr>skipped := skipped st + 1\<rparr>)"
    by (simp only: ev)
  with Skip(1) show ?case by (rule assms(4))
next
  case (Interrupt i st)
  then show ?case by (rule assms(5))
next
  case (Attempt i st)
  from Attempt(2) have "P (i + 1) ((after_attempt w cs i st)\<lparr>events := events st @ [Attempted i,
              Saved (record_outcome (progress st) (outcome_at w cs i) i)
                (save_batch_progress (checkpoint_write w i)
                   (record_outcome (progress st) (outcome_at w cs i) i))]\<rparr>)"
    by (simp add: after_attempt_def)
  then have "P (i + 1) (after_attempt w cs i st)"
    by (simp only: ev)
  with Attempt(1) show ?case by (rule assms(6))
qed

section \<open>What every run of the batch loop does\<close>

lemma step_at_in_range:
  "0 \<le> i \<Longrightarrow> i < int (length cs) \<Longrightarrow>
   step_at w cs i = Skip \<or> step_at w cs i = Interrupt \<or> step_at w cs i = Attempt"
  by (auto simp: step_at_def py_index_def Let_def)

lemma visited_trail:
  "\<exists>m. visited_indices (trail w cs i st) = [i..m] \<and> i - 1 \<le> m
       \<and> m < max (int (length cs)) i
       \<and> (0 \<le> i \<and> i < int (length cs) \<longrightarrow> i \<le> m)
       \<and> (fst (batch_loop w cs i st) = Completed \<longrightarrow> m = max (int (length cs)) i - 1)"
proof (induction i st rule: batch_loop_cases_induct [of _ w cs])
  case (Events i st es)
  show ?case by simp
next
  case (Stop i st)
  then show ?case
    by (intro exI [of _ "i - 1"]) (simp add: trail_stop batch_loop_stop step_at_cases)
next
  case (Crash i st e)
  then have "\<not> (0 \<le> i \<and> i < int (length cs))"
    using step_at_in_range [of i cs w] by auto
  with Crash show ?case
    by (intro exI [of _ "i - 1"]) (simp add: trail_crash batch_loop_crash step_at_cases)
next
  case (Skip i st)
  then obtain m where m: "visited_indices (trail w cs (i + 1) (st\<lparr>skipped := skipped st + 1\<rparr>)) = [i + 1..m]"
      "i \<le> m" "m < max (int (length cs)) (i + 1)"
      "fst (batch_loop w cs i st) = Completed \<longrightarrow> m = max (int (length cs)) (i + 1) - 1"
    by (auto simp: batch_loop_skip')
  from Skip(1) have lt: "i < int (length cs)" by (simp add: step_at_cases)
  show ?case
    using m lt by (intro exI [of _ m]) (simp add: trail_skip Skip(1) upto_rec1 [of i m])
next
  case (Interrupt i st)
  then have lt: "i < int (length cs)" by (simp add: step_at_cases)
  show ?case
    using lt by (intro exI [of _ i]) (simp add: trail_interrupt Interrupt batch_loop_interrupt)
next
  case (Attempt i st)
  then obtain m where m: "visited_indices (trail w cs (i + 1) (after_attempt w cs i st)) = [i + 1..m]"
      "i \<le> m" "m < max (int (length cs)) (i + 1)"
      "fst (batch_loop w cs i st) = Completed \<longrightarrow> m = max (int (length cs)) (i + 1) - 1"
    by (auto simp: batch_loop_attempt')
  from Attempt(1) have lt: "i < int (length cs)" by (simp add: step_at_cases)
  show ?case
    using m lt by (intro exI [of _ m]) (simp add: trail_attempt Attempt(1) upto_rec1 [of i m])
qed







lemma attempted_subset_visited: "set (attempted_indices es) \<subseteq> set (visited_indices es)"
  by (induction es rule: attempted_indices.induct) auto

lemma events_process_batch:
  "events (snd (process_batch w r cs d)) =
     trail w cs (if r then last_index (load_batch_progress d) + 1 else 0)
       \<lparr>progress = load_batch_progress d, disk = d, events = [], skipped = 0\<rparr>"
  by (simp add: process_batch_def Let_def events_batch_loop)

lemma visited_process_batch:
  "\<exists>m. visited_indices (events (snd (process_batch w r cs d))) = [start..m]
       \<and> (0 \<le> start \<and> start < int (length cs) \<longrightarrow> start \<le> m)"
  if "start = (if r then last_index (load_batch_progress d) + 1 else 0)"
proof -
  obtain m where "visited_indices (trail w cs start
        \<lparr>progress = load_batch_progress d, disk = d, events = [], skipped = 0\<rparr>) = [start..m]"
      "0 \<le> start \<and> start < int (length cs) \<longrightarrow> start \<le> m"
    using visited_trail [of w cs start
      "\<lparr>progress = load_batch_progress d, disk = d, events = [], skipped = 0\<rparr>"]
    by blast
  then show ?thesis
    unfolding events_process_batch that by (intro exI [of _ m]) simp
qed

text \<open>
  C1. In resume mode with a stored checkpoint whose \<open>last_index\<close> is \<open>k\<close>, every index
  the loop visits, and so every index it processes, is greater than \<open>k\<close>, no index is
  visited twice, and when a company with index \<open>k + 1\<close> exists (and \<open>k \<ge> -1\<close>) the first
  index visited is \<open>k + 1\<close>. Without resume mode, the first index visited is 0 whenever
  the list is not empty, whatever the checkpoint file holds.
\<close>

theorem process_batch_start_index:
  "(\<forall>j \<in> set (visited_indices (events (snd (process_batch w True cs (Stored p))))).
       last_index p < j)
   \<and> (\<forall>j \<in> set (attempted_indices (events (snd (process_batch w True cs (Stored p))))).
       last_index p < j)
   \<and> distinct (visited_indices (events (snd (process_batch w True cs (Stored p)))))
   \<and> (- 1 \<le> last_index p \<and> last_index p + 1 < int (length cs) \<longrightarrow>
        visited_indices (events (snd (process_batch w True cs (Stored p)))) \<noteq> []
        \<and> hd (visited_indices (events (snd (process_batch w True cs (Stored p)))))
            = last_index p + 1)
   \<and> (cs \<noteq> [] \<longrightarrow>
        visited_indices (events (snd (process_batch w False cs d))) \<noteq> []
        \<and> hd (visited_indices (events (snd (process_batch w False cs d)))) = 0)"
proof -
  let ?v = "visited_indices (events (snd (process_batch w True cs (Stored p))))"
  obtain m where m: "?v = [last_index p + 1..m]"
      "0 \<le> last_index p + 1 \<and> last_index p + 1 < int (length cs) \<longrightarrow> last_index p + 1 \<le> m"
    using visited_process_batch [of "last_index p + 1" True "Stored p" w cs]
    by (auto simp: load_batch_progress_def)
  obtain n where n: "visited_indices (events (snd (process_batch w False cs d))) = [0..n]"
      "0 < int (length cs) \<longrightarrow> 0 \<le> n"
    using visited_process_batch [of 0 False d w cs] by auto
  have 1: "\<forall>j \<in> set ?v. last_index p < j" using m(1) by simp
  moreover have "\<forall>j \<in> set (attempted_indices (events (snd (process_batch w True cs (Stored p))))).
       last_index p < j"
    using 1 attempted_subset_visited by blast
  moreover have "distinct ?v" using m(1) by simp
  moreover have "?v \<noteq> [] \<and> hd ?v = last_index p + 1"
    if "- 1 \<le> last_index p \<and> last_index p + 1 < int (length cs)"
    using that m by (simp add: upto_rec1)
  moreover have "visited_indices (events (snd (process_batch w False cs d))) \<noteq> []
        \<and> hd (visited_indices (events (snd (process_batch w False cs d)))) = 0"
    if "cs \<noteq> []"
    using that n by (simp add: upto_rec1)
  ultimately show ?thesis by blast
qed

text \<open>The theorem on the example list of four entries, with a checkpoint at index 1.\<close>

theorem process_batch_start_index_witness:
  "visited_indices (events (snd (process_batch example_world True example_companies
       (Stored \<lparr>processed = [], failed = [], last_index = 1\<rparr>)))) = [2, 3]
   \<and> attempted_indices (events (snd (process_batch example_world True example_companies
       (Stored \<lparr>processed = [], failed = [], last_index = 1\<rparr>)))) = [3]
   \<and> visited_indices (events (snd (process_batch example_world False example_companies
       (Stored \<lparr>processed = [], failed = [], last_index = 1\<rparr>)))) = [0, 1, 2, 3]"
proof -
  have a: "visited_indices (events (snd (process_batch example_world True example_companies
       (Stored \<lparr>processed = [], failed = [], last_index = 1\<rparr>)))) = [2, 3]"
    by code_simp
  have b: "attempted_indices (events (snd (process_batch example_world True example_companies
       (Stored \<lparr>processed = [], failed = [], last_index = 1\<rparr>)))) = [3]"
    by code_simp
  have c: "visited_indices (events (snd (process_batch example_world False example_companies
       (Stored \<lparr>processed = [], failed = [], last_index = 1\<rparr>)))) = [0, 1, 2, 3]"
    by code_simp
  show ?thesis
    using process_batch_start_index [of example_world example_companies
        "\<lparr>processed = [], failed = [], last_index = 1\<rparr>"
        "Stored \<lparr>processed = [], failed = [], last_index = 1\<rparr>"] a b c
    by simp
qed






section \<open>Empty input\<close>

text \<open>
  C7 (as amended). When the CSV file yields no company (and the set-up before it does
  not raise), \<open>main_async\<close> returns before \<open>process_batch\<close> is called: no company is
  processed, the checkpoint file is only removed by \<open>--reset\<close>, and the process ends
  with exit status 0.
\<close>

theorem main_empty_input_exits_zero:
  "csv w = CsvRows [] \<and> base_dir_raises w = None
     \<and> (reset a \<and> d \<noteq> NoFile \<longrightarrow> unlink_raises w = None) \<longrightarrow>
   main w a d =
     (0, \<lparr>rr_exit = Completed, rr_disk = (if reset a then NoFile else d), rr_events = []\<rparr>)
   \<and> attempted_indices (rr_events (snd (main w a d))) = []"
  by (auto simp: main_def main_async_def Let_def)

text \<open>The theorem for an empty list, with \<open>--reset\<close> and an unreadable checkpoint file.\<close>

theorem main_empty_input_exits_zero_witness:
  "csv empty_input_world = CsvRows [] \<and> base_dir_raises empty_input_world = None
   \<and> main empty_input_world \<lparr>resume = False, reset = True\<rparr> Unreadable =
     (0, \<lparr>rr_exit = Completed, rr_disk = NoFile, rr_events = []\<rparr>)"
  using main_empty_input_exits_zero
    [of empty_input_world "\<lparr>resume = False, reset = True\<rparr>" Unreadable]
  by (simp add: empty_input_world_def example_world_def)

text \<open>
  As first stated (a non-zero exit status) the claim fails: \<open>main_async\<close> logs
  "No companies found in CSV" and returns, no exception reaches \<open>main\<close>, and the status
  is 0.
\<close>

theorem main_empty_input_counterexample:
  "csv empty_input_world = CsvRows []
   \<and> fst (main empty_input_world \<lparr>resume = False, reset = False\<rparr> NoFile) = 0"
  by (simp add: main_def main_async_def empty_input_world_def example_world_def)

end
